theory Spec2Isabelle
  imports Main
begin

section \<open>Strings and paths\<close>

text \<open>
  A Python \<open>str\<close> is modelled as a \<open>string\<close> holding its UTF-8 bytes; every character the
  program inspects (the dot, the space, the slash, ASCII letters) is a single byte that
  never occurs inside a multi-byte sequence.  A \<open>pathlib.Path\<close> is the list of its
  components below the filesystem root; the root itself is \<open>[]\<close>.
\<close>

type_synonym path = "string list"

definition IGNORE_FILES :: "string set" where
  "IGNORE_FILES = {''.DS_Store'', ''Thumbs.db'', ''.gitignore''}"

definition VALID_EXTENSIONS :: "string set" where
  "VALID_EXTENSIONS = {''.ppt'', ''.pptx'', ''.doc'', ''.docx'', ''.pdf'', ''.txt''}"

text \<open>\<open>s.rfind(c)\<close> for a one-character \<open>c\<close>: the highest index holding \<open>c\<close>, or \<open>-1\<close>.\<close>

fun rfind :: "char \<Rightarrow> string \<Rightarrow> int" where
  "rfind c [] = - 1"
| "rfind c (x # xs) =
     (let r = rfind c xs in if 0 \<le> r then r + 1 else if x = c then 0 else - 1)"

text \<open>
  \<open>str.lower\<close> on the ASCII letters.  Python also lowers letters outside ASCII, but none of
  them becomes a character that occurs in \<open>VALID_EXTENSIONS\<close>, so the membership test of
  \<open>should_process_file\<close> is the same.
\<close>

definition lower_char :: "char \<Rightarrow> char" where
  "lower_char c =
     (case map_of (zip ''ABCDEFGHIJKLMNOPQRSTUVWXYZ'' ''abcdefghijklmnopqrstuvwxyz'') c of
        Some l \<Rightarrow> l
      | None \<Rightarrow> c)"

definition lower :: "string \<Rightarrow> string" where
  "lower s = map lower_char s"

text \<open>\<open>str.rstrip(c)\<close> and \<open>str.replace(old, new)\<close> for one-character arguments.\<close>

definition rstrip :: "char \<Rightarrow> string \<Rightarrow> string" where
  "rstrip c s = rev (dropWhile (\<lambda>x. x = c) (rev s))"

definition replace :: "char \<Rightarrow> char \<Rightarrow> string \<Rightarrow> string" where
  "replace old new s = map (\<lambda>x. if x = old then new else x) s"

text \<open>
  \<open>PurePath.name\<close>, \<open>.suffix\<close>, \<open>.stem\<close> and \<open>.parent\<close>.  The suffix starts at the last dot
  of the name, provided that dot is neither the first nor the last character
  (\<open>0 < i < len(name) - 1\<close> in pathlib, CPython 3.4 to 3.13); the stem is the name without
  the suffix.
\<close>

definition name :: "path \<Rightarrow> string" where
  "name p = (if p = [] then [] else last p)"

definition suffix :: "path \<Rightarrow> string" where
  "suffix p =
     (let n = name p; i = rfind (CHR ''.'') n
      in if 0 < i \<and> i < int (length n) - 1 then drop (nat i) n else [])"

definition stem :: "path \<Rightarrow> string" where
  "stem p =
     (let n = name p; i = rfind (CHR ''.'') n
      in if 0 < i \<and> i < int (length n) - 1 then take (nat i) n else n)"

definition parent :: "path \<Rightarrow> path" where
  "parent p = butlast p"

section \<open>The filesystem that is read\<close>

text \<open>
  The tree the run reads from: regular files and directories, each directory listing its
  entries in the order \<open>os.scandir\<close> yields them.  Symbolic links and special files are not
  modelled.
\<close>

datatype entry = File string | Dir string "entry list"

fun ename :: "entry \<Rightarrow> string" where
  "ename (File n) = n"
| "ename (Dir n es) = n"

text \<open>Resolving a path from an entry, as \<open>os.stat\<close> does component by component.\<close>

fun descend :: "entry \<Rightarrow> path \<Rightarrow> entry option" where
  "descend e [] = Some e"
| "descend (File n) (c # q) = None"
| "descend (Dir n es) (c # q) =
     (case find (\<lambda>e. ename e = c) es of None \<Rightarrow> None | Some e' \<Rightarrow> descend e' q)"

text \<open>
  \<open>Path.rglob('*')\<close> below a directory \<open>d\<close> with entries \<open>es\<close>: every entry at every depth,
  hidden ones included.  The order is that of CPython up to 3.11, which visits \<open>d\<close> and then
  every directory below it in pre-order and lists the entries of each visited directory;
  later versions yield the same paths in another fixed order.
\<close>

fun rglob :: "path \<Rightarrow> entry list \<Rightarrow> path list" where
  "rglob d es =
     map (\<lambda>e. d @ [ename e]) es @
     concat (map (\<lambda>e. case e of File n \<Rightarrow> [] | Dir n cs \<Rightarrow> rglob (d @ [n]) cs) es)"

declare rglob.simps [simp del]

section \<open>Structured results\<close>

text \<open>
  What \<open>response.json()\<close> returns: Python's \<open>None\<close>, \<open>bool\<close>, \<open>int\<close>, \<open>float\<close>, \<open>str\<close>, \<open>list\<close>
  and \<open>dict\<close>.  A \<open>dict\<close> keeps its keys in insertion order and holds each key once.  A float
  is carried as its mantissa and binary exponent.  The function returns \<open>None\<close> both for a
  \<open>null\<close> body and for a failure, so \<open>JNull\<close> stands for both.
\<close>

datatype json =
    JNull
  | JBool bool
  | JInt int
  | JFloat int int
  | JStr string
  | JArr "json list"
  | JObj "(string \<times> json) list"

text \<open>The truth value Python gives an object in \<open>if response_data:\<close>.\<close>

fun truthy :: "json \<Rightarrow> bool" where
  "truthy JNull = False"
| "truthy (JBool b) = b"
| "truthy (JInt i) = (i \<noteq> 0)"
| "truthy (JFloat m e) = (m \<noteq> 0)"
| "truthy (JStr s) = (s \<noteq> [])"
| "truthy (JArr xs) = (xs \<noteq> [])"
| "truthy (JObj kvs) = (kvs \<noteq> [])"

datatype oserror = FileExistsError | FileNotFoundError | NotADirectoryError | IsADirectoryError

datatype valuemsg = InputDirMissing path | NotInSubpath path path

datatype exn =
    ValueError valuemsg
  | TypeError
  | KeyError string
  | OSError oserror path
  | ArgumentTypeError string

text \<open>\<open>sub in s\<close> on two strings: \<open>sub\<close> occurs in \<open>s\<close> as a contiguous run.\<close>

fun str_contains :: "string \<Rightarrow> string \<Rightarrow> bool" where
  "str_contains sub [] = (sub = [])"
| "str_contains sub (c # cs) = (take (length sub) (c # cs) = sub \<or> str_contains sub cs)"

text \<open>\<open>key in obj\<close> and \<open>obj[key]\<close> for a string \<open>key\<close>.\<close>

fun py_in :: "string \<Rightarrow> json \<Rightarrow> exn + bool" where
  "py_in k (JObj kvs) = Inr (k \<in> set (map fst kvs))"
| "py_in k (JArr xs) = Inr (JStr k \<in> set xs)"
| "py_in k (JStr s) = Inr (str_contains k s)"
| "py_in k other = Inl TypeError"

fun py_getitem :: "json \<Rightarrow> string \<Rightarrow> exn + json" where
  "py_getitem (JObj kvs) k = (case map_of kvs k of None \<Rightarrow> Inl (KeyError k) | Some v \<Rightarrow> Inr v)"
| "py_getitem other k = Inl TypeError"

subsection \<open>Serialisation\<close>

text \<open>
  \<open>json.dump(obj, f, indent=2, ensure_ascii=False)\<close>: members in the dict's own order, two
  spaces per nesting level, \<open>,\<close> and \<open>: \<close> as separators, and only the quote, the backslash
  and the control characters escaped.  The text of a float (\<open>float.__repr__\<close>) is a parameter.
\<close>

fun show_nat :: "nat \<Rightarrow> string" where
  "show_nat n =
     (if n < 10 then [''0123456789'' ! n]
      else show_nat (n div 10) @ [''0123456789'' ! (n mod 10)])"

declare show_nat.simps [simp del]

definition show_int :: "int \<Rightarrow> string" where
  "show_int i = (if i < 0 then CHR ''-'' # show_nat (nat (- i)) else show_nat (nat i))"

definition escape_char :: "char \<Rightarrow> string" where
  "escape_char c =
     (if c = CHR 0x22 then [CHR 0x5C, CHR 0x22]
      else if c = CHR 0x5C then [CHR 0x5C, CHR 0x5C]
      else if c = CHR 0x08 then [CHR 0x5C, CHR ''b'']
      else if c = CHR 0x0C then [CHR 0x5C, CHR ''f'']
      else if c = CHR 0x0A then [CHR 0x5C, CHR ''n'']
      else if c = CHR 0x0D then [CHR 0x5C, CHR ''r'']
      else if c = CHR 0x09 then [CHR 0x5C, CHR ''t'']
      else if (of_char c :: nat) < 32
        then [CHR 0x5C, CHR ''u'', CHR ''0'', CHR ''0'',
              ''0123456789abcdef'' ! ((of_char c :: nat) div 16),
              ''0123456789abcdef'' ! ((of_char c :: nat) mod 16)]
      else [c])"

definition encode_str :: "string \<Rightarrow> string" where
  "encode_str s = [CHR 0x22] @ concat (map escape_char s) @ [CHR 0x22]"

definition newline_indent :: "nat \<Rightarrow> string" where
  "newline_indent level = CHR 0x0A # replicate (2 * level) CHR '' ''"

fun join :: "string \<Rightarrow> string list \<Rightarrow> string" where
  "join sep [] = []"
| "join sep [x] = x"
| "join sep (x # y # ys) = x @ sep @ join sep (y # ys)"

fun iterencode :: "(int \<Rightarrow> int \<Rightarrow> string) \<Rightarrow> nat \<Rightarrow> json \<Rightarrow> string" where
  "iterencode fr level JNull = ''null''"
| "iterencode fr level (JBool b) = (if b then ''true'' else ''false'')"
| "iterencode fr level (JInt i) = show_int i"
| "iterencode fr level (JFloat m e) = fr m e"
| "iterencode fr level (JStr s) = encode_str s"
| "iterencode fr level (JArr xs) =
     (if xs = [] then ''[]''
      else ''['' @ newline_indent (level + 1) @
           join ('','' @ newline_indent (level + 1)) (map (iterencode fr (level + 1)) xs) @
           newline_indent level @ '']'')"
| "iterencode fr level (JObj kvs) =
     (if kvs = [] then ''{}''
      else ''{'' @ newline_indent (level + 1) @
           join ('','' @ newline_indent (level + 1))
             (map (\<lambda>(k, v). encode_str k @ '': '' @ iterencode fr (level + 1) v) kvs) @
           newline_indent level @ ''}'')"

definition json_dumps :: "(int \<Rightarrow> int \<Rightarrow> string) \<Rightarrow> json \<Rightarrow> string" where
  "json_dumps fr obj = iterencode fr 0 obj"

section \<open>The world of a run\<close>

text \<open>
  The output side of the filesystem is a store from paths to nodes; the root \<open>[]\<close> is a
  directory.  Beside it the state keeps the trace of what the run did to the outside: the
  lines it printed, the paths it examined or opened, the requests it sent.
\<close>

datatype node = FileNode string | DirNode

type_synonym store = "path \<Rightarrow> node option"

datatype line =
    InputDirectory path
  | OutputDirectory path
  | ErrorProcessingStatus path nat
  | ErrorProcessingExc path string
  | NoProcessableFiles path
  | FoundFiles nat
  | Processing nat nat path
  | SuccessfullyProcessed path
  | FailedToProcess path
  | ErrorLine valuemsg
  | UnexpectedError exn
  | UsageError exn

datatype event =
    Print line
  | Stat path
  | Scan path
  | OpenRead path
  | Post string path

record sys =
  out :: store
  trace :: "event list"

text \<open>
  What the outside answers when one file is uploaded: opening the file raises, the request
  raises, or a response arrives with a status and a body that \<open>response.json()\<close> either
  rejects (raising) or parses.  The strings are the texts of the exceptions, which are of
  class \<open>Exception\<close>; a keyboard interrupt or an asyncio cancellation is not modelled.
\<close>

datatype outcome =
    OpenFails string
  | RequestFails string
  | Response nat "string + json"

text \<open>
  The environment of a run.  \<open>urlparse\<close> gives the scheme and the network location of a URL,
  or raises \<open>ValueError\<close> (\<open>Inl\<close>); \<open>resolve\<close> is \<open>Path(os.path.expanduser(s)).resolve()\<close>;
  \<open>tree\<close> lists the entries of the filesystem root as the scan sees them; \<open>respond\<close> is the
  remote service together with the network, by request URL and uploaded file.
\<close>

record env =
  urlparse :: "string \<Rightarrow> unit + string \<times> string"
  resolve :: "string \<Rightarrow> path"
  tree :: "entry list"
  respond :: "string \<Rightarrow> path \<Rightarrow> outcome"
  float_repr :: "int \<Rightarrow> int \<Rightarrow> string"

subsection \<open>Effects\<close>

text \<open>An action runs on the state and ends with a value or with a raised exception.\<close>

type_synonym 'a io = "sys \<Rightarrow> (exn + 'a) \<times> sys"

definition io_return :: "'a \<Rightarrow> 'a io" where
  "io_return a = (\<lambda>s. (Inr a, s))"

definition io_raise :: "exn \<Rightarrow> 'a io" where
  "io_raise e = (\<lambda>s. (Inl e, s))"

definition io_bind :: "'a io \<Rightarrow> ('a \<Rightarrow> 'b io) \<Rightarrow> 'b io" where
  "io_bind m f = (\<lambda>s. case m s of (Inl e, s') \<Rightarrow> (Inl e, s') | (Inr a, s') \<Rightarrow> f a s')"

definition io_lift :: "exn + 'a \<Rightarrow> 'a io" where
  "io_lift r = (\<lambda>s. (r, s))"

definition emit :: "event \<Rightarrow> unit io" where
  "emit ev = (\<lambda>s. (Inr (), s\<lparr>trace := trace s @ [ev]\<rparr>))"

definition print :: "line \<Rightarrow> unit io" where
  "print l = emit (Print l)"

subsection \<open>Reading\<close>

definition stat :: "env \<Rightarrow> path \<Rightarrow> entry option" where
  "stat E p = descend (Dir [] (tree E)) p"

definition exists :: "env \<Rightarrow> path \<Rightarrow> bool" where
  "exists E p = (stat E p \<noteq> None)"

definition is_file :: "env \<Rightarrow> path \<Rightarrow> bool" where
  "is_file E p = (case stat E p of Some (File n) \<Rightarrow> True | _ \<Rightarrow> False)"


text \<open>\<open>d.rglob('*')\<close>: nothing when \<open>d\<close> is not a directory.\<close>

definition rglob_all :: "env \<Rightarrow> path \<Rightarrow> path list" where
  "rglob_all E d = (case stat E d of Some (Dir n es) \<Rightarrow> rglob d es | _ \<Rightarrow> [])"

subsection \<open>Writing\<close>

text \<open>
  \<open>Path.mkdir(exist_ok=True)\<close>: an existing directory is accepted, an existing file is
  not, and a new directory needs its parent.  With \<open>parents=True\<close> the ancestors are made
  first, from the top; on a store in which every node has its parent this leaves what
  pathlib's own recursion leaves, though the \<open>OSError\<close> reported for a file in the way may be
  of another subclass.  \<open>open(p, 'w')\<close> creates or empties the file \<open>p\<close> in an existing
  directory; \<open>f.write\<close> then stores the text (text mode without newline translation, as on
  POSIX).  Failures that the store does not determine (permissions, a full disk) are not
  modelled.
\<close>

definition is_dir_out :: "store \<Rightarrow> path \<Rightarrow> bool" where
  "is_dir_out st p = (p = [] \<or> st p = Some DirNode)"

definition no_parent :: "store \<Rightarrow> path \<Rightarrow> oserror" where
  "no_parent st p = (if st (parent p) = None then FileNotFoundError else NotADirectoryError)"

definition mkdir :: "path \<Rightarrow> unit io" where
  "mkdir p = (\<lambda>s.
     if is_dir_out (out s) p then (Inr (), s)
     else if out s p \<noteq> None then (Inl (OSError FileExistsError p), s)
     else if is_dir_out (out s) (parent p) then (Inr (), s\<lparr>out := (out s)(p \<mapsto> DirNode)\<rparr>)
     else (Inl (OSError (no_parent (out s) p) p), s))"

function mkdir_parents :: "path \<Rightarrow> unit io" where
  "mkdir_parents p =
     (if p = [] then io_return ()
      else io_bind (mkdir_parents (parent p)) (\<lambda>_. mkdir p))"
  by pat_completeness auto
termination
  by (relation "measure length") (auto simp: parent_def)

declare mkdir_parents.simps [simp del]

definition open_w :: "path \<Rightarrow> unit io" where
  "open_w p = (\<lambda>s.
     if is_dir_out (out s) p then (Inl (OSError IsADirectoryError p), s)
     else if is_dir_out (out s) (parent p) then (Inr (), s\<lparr>out := (out s)(p \<mapsto> FileNode [])\<rparr>)
     else (Inl (OSError (no_parent (out s) p) p), s))"

definition f_write :: "path \<Rightarrow> string \<Rightarrow> unit io" where
  "f_write p text = (\<lambda>s. (Inr (), s\<lparr>out := (out s)(p \<mapsto> FileNode text)\<rparr>))"

text \<open>
  \<open>with open(p, 'w') as f: f.write(arg)\<close>: the file is opened first, then the argument is
  evaluated, which may raise, then it is written.
\<close>

definition with_open_w :: "path \<Rightarrow> exn + string \<Rightarrow> unit io" where
  "with_open_w p arg =
     io_bind (open_w p) (\<lambda>_. io_bind (io_lift arg) (\<lambda>text. f_write p text))"

text \<open>\<open>f.write\<close> takes a \<open>str\<close> and raises \<open>TypeError\<close> on anything else.\<close>

fun as_str :: "json \<Rightarrow> exn + string" where
  "as_str (JStr t) = Inr t"
| "as_str other = Inl TypeError"

section \<open>DocumentProcessor\<close>

record processor =
  api_url :: string
  input_dir :: path
  output_dir :: path
  json_dir :: path
  md_dir :: path

definition init :: "env \<Rightarrow> string \<Rightarrow> string \<Rightarrow> string \<Rightarrow> processor io" where
  "init E url inp outp =
     (let self = \<lparr>api_url = rstrip (CHR ''/'') url,
                  input_dir = resolve E inp,
                  output_dir = resolve E outp,
                  json_dir = resolve E outp @ [''json''],
                  md_dir = resolve E outp @ [''markdown'']\<rparr>
      in io_bind (emit (Stat (input_dir self))) (\<lambda>_.
         if \<not> exists E (input_dir self)
         then io_raise (ValueError (InputDirMissing (input_dir self)))
         else io_bind (mkdir_parents (output_dir self)) (\<lambda>_.
              io_bind (mkdir (json_dir self)) (\<lambda>_.
              io_bind (mkdir (md_dir self)) (\<lambda>_.
              io_bind (print (InputDirectory (input_dir self))) (\<lambda>_.
              io_bind (print (OutputDirectory (output_dir self))) (\<lambda>_.
              io_return self)))))))"

definition should_process_file :: "path \<Rightarrow> bool" where
  "should_process_file file_path =
     (if name file_path \<in> IGNORE_FILES then False
      else if lower (suffix file_path) \<notin> VALID_EXTENSIONS then False
      else True)"

definition get_safe_filename :: "string \<Rightarrow> string" where
  "get_safe_filename filename = replace (CHR '' '') (CHR ''_'') filename"

text \<open>\<open>file_path.relative_to(self.input_dir)\<close> raises \<open>ValueError\<close> outside the directory.\<close>

definition get_relative_path :: "processor \<Rightarrow> path \<Rightarrow> exn + path" where
  "get_relative_path self file_path =
     (if take (length (input_dir self)) file_path = input_dir self
      then Inr (drop (length (input_dir self)) file_path)
      else Inl (ValueError (NotInSubpath file_path (input_dir self))))"

text \<open>
  The \<open>try\<close> block: the file is opened, the request is sent, the status is tested and the
  body is parsed; every exception on the way is caught, printed and turned into \<open>None\<close>.
\<close>

definition process_single_file :: "env \<Rightarrow> processor \<Rightarrow> path \<Rightarrow> json io" where
  "process_single_file E self file_path =
     (let url = api_url self @ ''/parse_document/ppt''
      in io_bind (emit (OpenRead file_path)) (\<lambda>_.
         case respond E url file_path of
           OpenFails msg \<Rightarrow>
             io_bind (print (ErrorProcessingExc file_path msg)) (\<lambda>_. io_return JNull)
         | RequestFails msg \<Rightarrow>
             io_bind (emit (Post url file_path)) (\<lambda>_.
             io_bind (print (ErrorProcessingExc file_path msg)) (\<lambda>_. io_return JNull))
         | Response status body \<Rightarrow>
             io_bind (emit (Post url file_path)) (\<lambda>_.
             if status \<noteq> 200
             then io_bind (print (ErrorProcessingStatus file_path status)) (\<lambda>_. io_return JNull)
             else (case body of
                     Inl msg \<Rightarrow>
                       io_bind (print (ErrorProcessingExc file_path msg)) (\<lambda>_. io_return JNull)
                   | Inr data \<Rightarrow> io_return data))))"

definition save_outputs :: "env \<Rightarrow> processor \<Rightarrow> path \<Rightarrow> json \<Rightarrow> unit io" where
  "save_outputs E self file_path response_data =
     io_bind (io_lift (get_relative_path self file_path)) (\<lambda>rel_path.
     let safe_filename = get_safe_filename (stem file_path);
         json_subdir = json_dir self @ parent rel_path;
         md_subdir = md_dir self @ parent rel_path;
         json_path = json_subdir @ [safe_filename @ ''.json''];
         md_path = md_subdir @ [safe_filename @ ''.md'']
     in io_bind (mkdir_parents json_subdir) (\<lambda>_.
        io_bind (mkdir_parents md_subdir) (\<lambda>_.
        io_bind (with_open_w json_path (Inr (json_dumps (float_repr E) response_data))) (\<lambda>_.
        io_bind (io_lift (py_in ''text'' response_data)) (\<lambda>has_text.
        if has_text
        then with_open_w md_path
               (case py_getitem response_data ''text'' of
                  Inl e \<Rightarrow> Inl e
                | Inr text \<Rightarrow> as_str text)
        else io_return ())))))"

definition get_all_files :: "env \<Rightarrow> processor \<Rightarrow> path list" where
  "get_all_files E self =
     filter (\<lambda>file_path. is_file E file_path \<and> should_process_file file_path)
       (rglob_all E (input_dir self))"

text \<open>The \<open>for\<close> loop of \<open>process_directory\<close>, \<open>idx\<close> counting from 1.\<close>

fun process_files :: "env \<Rightarrow> processor \<Rightarrow> nat \<Rightarrow> nat \<Rightarrow> path list \<Rightarrow> unit io" where
  "process_files E self total_files idx [] = io_return ()"
| "process_files E self total_files idx (file_path # files) =
     io_bind (io_lift (get_relative_path self file_path)) (\<lambda>rel_path.
     io_bind (print (Processing idx total_files rel_path)) (\<lambda>_.
     io_bind (process_single_file E self file_path) (\<lambda>response_data.
     io_bind (if truthy response_data
              then io_bind (save_outputs E self file_path response_data) (\<lambda>_.
                   print (SuccessfullyProcessed rel_path))
              else print (FailedToProcess rel_path)) (\<lambda>_.
     process_files E self total_files (idx + 1) files))))"

definition process_directory :: "env \<Rightarrow> processor \<Rightarrow> unit io" where
  "process_directory E self =
     io_bind (emit (Scan (input_dir self))) (\<lambda>_.
     let files = get_all_files E self; total_files = length files
     in if total_files = 0 then print (NoProcessableFiles (input_dir self))
        else io_bind (print (FoundFiles total_files)) (\<lambda>_.
             process_files E self total_files 1 files))"

section \<open>The command line\<close>

definition validate_url :: "env \<Rightarrow> string \<Rightarrow> exn + string" where
  "validate_url E url =
     (case urlparse E url of
        Inl _ \<Rightarrow> Inl (ArgumentTypeError url)
      | Inr (scheme, netloc) \<Rightarrow>
          if scheme \<noteq> [] \<and> netloc \<noteq> [] then Inr url else Inl (ArgumentTypeError url))"

text \<open>
  A command line that gives \<open>--api-url\<close> and \<open>--input-dir\<close>, and perhaps \<open>--output-dir\<close>.
  \<open>parse_args\<close> passes the URL through \<open>validate_url\<close>; when that raises
  \<open>ArgumentTypeError\<close>, \<open>argparse\<close> prints the usage error and ends the process with status 2,
  outside the \<open>try\<close> of \<open>main\<close>.  Otherwise \<open>main\<close> returns the exit status: 1 from either
  handler, 0 at the end.
\<close>

record args =
  arg_api_url :: string
  arg_input_dir :: string
  arg_output_dir :: "string option"

definition run :: "env \<Rightarrow> string \<Rightarrow> args \<Rightarrow> unit io" where
  "run E url a =
     io_bind (init E url (arg_input_dir a)
                (case arg_output_dir a of None \<Rightarrow> ''output'' | Some d \<Rightarrow> d)) (\<lambda>processor.
     process_directory E processor)"

definition main :: "env \<Rightarrow> args \<Rightarrow> sys \<Rightarrow> nat \<times> sys" where
  "main E a s =
     (case validate_url E (arg_api_url a) of
        Inl e \<Rightarrow> (2, s\<lparr>trace := trace s @ [Print (UsageError e)]\<rparr>)
      | Inr url \<Rightarrow>
          (case run E url a s of
             (Inl (ValueError m), s') \<Rightarrow> (1, s'\<lparr>trace := trace s' @ [Print (ErrorLine m)]\<rparr>)
           | (Inl e, s') \<Rightarrow> (1, s'\<lparr>trace := trace s' @ [Print (UnexpectedError e)]\<rparr>)
           | (Inr u, s') \<Rightarrow> (0, s')))"

section \<open>A concrete environment\<close>

text \<open>
  The scheme and the network location as \<open>urllib.parse.urlsplit\<close> finds them in a URL
  without control characters and brackets: the scheme is what precedes the first colon
  when that starts with a letter and holds only letters, digits, \<open>+\<close>, \<open>-\<close> and \<open>.\<close>; the
  network location follows \<open>//\<close> and ends before the first \<open>/\<close>, \<open>?\<close> or \<open>#\<close>.
\<close>

definition urlsplit_core :: "string \<Rightarrow> unit + string \<times> string" where
  "urlsplit_core url =
     (let pre = takeWhile (\<lambda>c. c \<noteq> CHR '':'') url;
          letters = set ''abcdefghijklmnopqrstuvwxyzABCDEFGHIJKLMNOPQRSTUVWXYZ'';
          scheme_chars = letters \<union> set ''0123456789+-.'';
          has_scheme = (pre \<noteq> url \<and> pre \<noteq> [] \<and> hd pre \<in> letters \<and> set pre \<subseteq> scheme_chars);
          scheme = (if has_scheme then lower pre else []);
          rest = (if has_scheme then drop (length pre + 1) url else url);
          netloc = (if take 2 rest = ''//''
                    then takeWhile (\<lambda>c. c \<notin> set ''/?#'') (drop 2 rest) else [])
      in Inr (scheme, netloc))"

text \<open>Absolute and relative directory names on a system without links, run from \<open>/srv\<close>.\<close>

fun split_path :: "string \<Rightarrow> string \<Rightarrow> path" where
  "split_path cur [] = (if cur = [] then [] else [cur])"
| "split_path cur (c # cs) =
     (if c = CHR ''/'' then (if cur = [] then [] else [cur]) @ split_path [] cs
      else split_path (cur @ [c]) cs)"

definition resolve_srv :: "string \<Rightarrow> path" where
  "resolve_srv d = (if take 1 d = ''/'' then split_path [] d else ''srv'' # split_path [] d)"

text \<open>
  The tree \<open>/srv/in\<close> with \<open>A/report.pptx\<close>, \<open>A/notes.txt\<close> and \<open>B/skip.ini\<close>, and a service that
  finds text in the first file and none in the second.
\<close>

definition demo_respond :: "string \<Rightarrow> path \<Rightarrow> outcome" where
  "demo_respond url p =
     (if url \<noteq> ''http://example.com:8000/parse_document/ppt'' then RequestFails ''unreachable''
      else if name p = ''report.pptx'' then Response 200 (Inr (JObj [(''text'', JStr ''hello'')]))
      else if name p = ''notes.txt'' then Response 200 (Inr (JObj [(''summary'', JStr ''ok'')]))
      else Response 500 (Inl ''no body''))"

definition demo_env :: env where
  "demo_env =
     \<lparr>urlparse = urlsplit_core,
      resolve = resolve_srv,
      tree = [Dir ''srv'' [Dir ''in''
                [Dir ''A'' [File ''report.pptx'', File ''notes.txt''],
                 Dir ''B'' [File ''skip.ini'']]]],
      respond = demo_respond,
      float_repr = (\<lambda>m e. ''0.0'')\<rparr>"

definition demo_args :: args where
  "demo_args =
     \<lparr>arg_api_url = ''http://example.com:8000/'', arg_input_dir = ''in'', arg_output_dir = None\<rparr>"

definition fresh :: sys where
  "fresh = \<lparr>out = Map.empty, trace = []\<rparr>"

definition demo_processor :: processor where
  "demo_processor =
     \<lparr>api_url = ''http://example.com:8000'',
      input_dir = [''srv'', ''in''],
      output_dir = [''srv'', ''output''],
      json_dir = [''srv'', ''output'', ''json''],
      md_dir = [''srv'', ''output'', ''markdown'']\<rparr>"

text \<open>Variations: a service that is down for one file, a malformed URL, a missing directory.\<close>

definition flaky_env :: env where
  "flaky_env =
     demo_env\<lparr>respond := (\<lambda>url p.
       if name p = ''report.pptx'' then Response 503 (Inl ''Service Unavailable'')
       else demo_respond url p)\<rparr>"


definition missing_dir_args :: args where
  "missing_dir_args = demo_args\<lparr>arg_input_dir := ''nowhere''\<rparr>"

text \<open>
  A service that answers one file with the empty object, and two trees holding \<open>a b.txt\<close>
  and \<open>a_b.txt\<close> in either order of enumeration.
\<close>

definition hollow_env :: env where
  "hollow_env =
     demo_env\<lparr>tree := [Dir ''srv'' [Dir ''in'' [File ''blank.txt'']]],
              respond := (\<lambda>url p. Response 200 (Inr (JObj [])))\<rparr>"

definition clash_respond :: "string \<Rightarrow> path \<Rightarrow> outcome" where
  "clash_respond url p =
     (if name p = ''a b.txt'' then Response 200 (Inr (JObj [(''text'', JStr ''first'')]))
      else Response 200 (Inr (JObj [(''text'', JStr ''second'')])))"

definition clash_env :: env where
  "clash_env =
     demo_env\<lparr>tree := [Dir ''srv'' [Dir ''in'' [File ''a b.txt'', File ''a_b.txt'']]],
              respond := clash_respond\<rparr>"

definition clash_env_rev :: env where
  "clash_env_rev =
     demo_env\<lparr>tree := [Dir ''srv'' [Dir ''in'' [File ''a_b.txt'', File ''a b.txt'']]],
              respond := clash_respond\<rparr>"

section \<open>Notions for the proofs\<close>

text \<open>What \<open>__init__\<close> establishes about the two output roots.\<close>

definition made_by_init :: "processor \<Rightarrow> bool" where
  "made_by_init self \<longleftrightarrow>
     json_dir self = output_dir self @ [''json''] \<and>
     md_dir self = output_dir self @ [''markdown'']"

text \<open>The uploads that \<open>process_single_file\<close> turns into \<open>None\<close>.\<close>

fun failed :: "outcome \<Rightarrow> bool" where
  "failed (OpenFails msg) = True"
| "failed (RequestFails msg) = True"
| "failed (Response status body) = (status \<noteq> 200 \<or> isl body)"

text \<open>
  The kind of node at each path of a store, and actions that can be replayed: an action
  adds a fixed set of nodes and a fixed piece of trace, never turns a file into a
  directory or back, and does the same again on every store that already has the kinds
  it leaves behind (when it raised: on every store with exactly those kinds).
\<close>

definition kinds :: "store \<Rightarrow> path \<Rightarrow> bool option" where
  "kinds st = (\<lambda>p. map_option (\<lambda>n. n = DirNode) (st p))"

definition effect :: "sys \<Rightarrow> store \<Rightarrow> event list \<Rightarrow> sys" where
  "effect s W L = s\<lparr>out := out s ++ W, trace := trace s @ L\<rparr>"

definition fits :: "bool \<Rightarrow> store \<Rightarrow> store \<Rightarrow> bool" where
  "fits exact t u \<longleftrightarrow> kinds t \<subseteq>\<^sub>m kinds u \<and> (exact \<longrightarrow> kinds u = kinds t)"

definition replays :: "'a io \<Rightarrow> bool" where
  "replays m \<longleftrightarrow>
     (\<forall>s. \<exists>r W L. m s = (r, effect s W L) \<and> kinds (out s) \<subseteq>\<^sub>m kinds (out s ++ W) \<and>
        (\<forall>u. fits (isl r) (out s ++ W) (out u) \<longrightarrow> m u = (r, effect u W L)))"

section \<open>Names and extensions\<close>

lemma rfind_absent: "c \<notin> set xs \<Longrightarrow> rfind c xs = - 1"
  by (induction xs) (auto simp: Let_def)

lemma lower_char_dot: "lower_char c = CHR ''.'' \<longleftrightarrow> c = CHR ''.''"
  by (simp add: lower_char_def)

lemma dot_lower_char: "CHR ''.'' = lower_char c \<longleftrightarrow> CHR ''.'' = c"
  using lower_char_dot [of c] by auto

lemma dot_in_lower: "CHR ''.'' \<in> set (lower s) \<longleftrightarrow> CHR ''.'' \<in> set s"
  by (induction s) (simp_all add: lower_def dot_lower_char)

lemma name_snoc: "name (d @ [n]) = n"
  by (simp add: name_def)

lemma suffix_leading_dot:
  assumes "lower n = CHR ''.'' # e" and "CHR ''.'' \<notin> set e"
  shows "suffix (d @ [n]) = []"
proof -
  from assms(1) obtain a r
    where n: "n = a # r" and a: "lower_char a = CHR ''.''" and r: "lower r = e"
    by (cases n) (auto simp: lower_def)
  from a have "a = CHR ''.''" by (simp add: lower_char_dot)
  moreover from r assms(2) have "CHR ''.'' \<notin> set r" using dot_in_lower by blast
  ultimately have "rfind (CHR ''.'') n = 0" using n by (simp add: rfind_absent Let_def)
  then show ?thesis by (simp add: suffix_def name_snoc Let_def)
qed



text \<open>
  Claim C10.  A file whose whole name is a dot followed by an allowed extension, in any
  mix of upper and lower case (\<open>.txt\<close>, \<open>.PDF\<close>), has the empty suffix under the filter's
  computation of the extension, and the filter rejects it.
\<close>

theorem C10_bare_extension_name_rejected:
  assumes "lower n \<in> VALID_EXTENSIONS"
  shows "suffix (d @ [n]) = [] \<and> \<not> should_process_file (d @ [n])"
proof -
  from assms obtain e where "lower n = CHR ''.'' # e" and "CHR ''.'' \<notin> set e"
    by (auto simp: VALID_EXTENSIONS_def)
  then have "suffix (d @ [n]) = []" by (rule suffix_leading_dot)
  then show ?thesis by (simp add: should_process_file_def lower_def VALID_EXTENSIONS_def)
qed

theorem C10_bare_extension_name_rejected_witness:
  "lower ''.TXT'' \<in> VALID_EXTENSIONS \<and> suffix [''srv'', ''in'', ''.TXT''] = [] \<and>
   \<not> should_process_file [''srv'', ''in'', ''.TXT'']"
  using C10_bare_extension_name_rejected [of "''.TXT''" "[''srv'', ''in'']"]
  by (simp add: VALID_EXTENSIONS_def lower_def lower_char_def)

section \<open>Discovery\<close>









section \<open>Replaying a run\<close>

named_theorems replay_intros

lemma effect_nothing [simp]: "effect s Map.empty [] = s"
  by (simp add: effect_def)

lemma effect_effect [simp]: "effect (effect s W1 L1) W2 L2 = effect s (W1 ++ W2) (L1 @ L2)"
  by (simp add: effect_def)

lemma out_effect [simp]: "out (effect s W L) = out s ++ W"
  by (simp add: effect_def)

lemma trace_effect [simp]: "trace (effect s W L) = trace s @ L"
  by (simp add: effect_def)

lemma kinds_add: "kinds (st ++ W) = kinds st ++ kinds W"
  by (rule ext) (simp add: kinds_def map_add_def split: option.splits)

lemma kinds_absorb:
  assumes "kinds (st ++ W) \<subseteq>\<^sub>m kinds u"
  shows "kinds (u ++ W) = kinds u"
proof (rule ext)
  fix p
  show "kinds (u ++ W) p = kinds u p"
  proof (cases "W p")
    case None
    then show ?thesis by (simp add: kinds_def map_add_def)
  next
    case (Some v)
    then have "kinds (st ++ W) p = Some (v = DirNode)" by (simp add: kinds_def)
    with assms have "kinds u p = Some (v = DirNode)" by (auto simp: map_le_def dom_def)
    moreover have "kinds (u ++ W) p = Some (v = DirNode)" using Some by (simp add: kinds_def)
    ultimately show ?thesis by simp
  qed
qed

lemma fits_refl: "fits exact t t"
  by (simp add: fits_def)

lemma fits_weaken: "fits exact t u \<Longrightarrow> kinds t0 \<subseteq>\<^sub>m kinds t \<Longrightarrow> fits False t0 u"
  by (auto simp: fits_def intro: map_le_trans)

lemma fits_absorb:
  assumes "fits exact ((st ++ W1) ++ W2) u" and "kinds (st ++ W1) \<subseteq>\<^sub>m kinds ((st ++ W1) ++ W2)"
  shows "fits exact ((st ++ W1) ++ W2) (u ++ W1)"
proof -
  from assms have "kinds (st ++ W1) \<subseteq>\<^sub>m kinds u" by (auto simp: fits_def intro: map_le_trans)
  then have "kinds (u ++ W1) = kinds u" by (rule kinds_absorb)
  with assms(1) show ?thesis by (simp add: fits_def)
qed

lemma replaysI:
  assumes "\<And>s. \<exists>r W L. m s = (r, effect s W L) \<and> kinds (out s) \<subseteq>\<^sub>m kinds (out s ++ W) \<and>
        (\<forall>u. fits (isl r) (out s ++ W) (out u) \<longrightarrow> m u = (r, effect u W L))"
  shows "replays m"
  using assms by (simp add: replays_def)

lemma replaysE:
  assumes "replays m"
  obtains r W L where "m s = (r, effect s W L)" and "kinds (out s) \<subseteq>\<^sub>m kinds (out s ++ W)"
    and "\<And>u. fits (isl r) (out s ++ W) (out u) \<Longrightarrow> m u = (r, effect u W L)"
  using assms unfolding replays_def by blast

lemma replays_pure:
  assumes "\<And>s. m s = (r, effect s Map.empty L)"
  shows "replays m"
proof (rule replaysI)
  fix s
  have "m s = (r, effect s Map.empty L) \<and> kinds (out s) \<subseteq>\<^sub>m kinds (out s ++ Map.empty) \<and>
        (\<forall>u. fits (isl r) (out s ++ Map.empty) (out u) \<longrightarrow> m u = (r, effect u Map.empty L))"
    using assms by simp
  then show "\<exists>r W L. m s = (r, effect s W L) \<and> kinds (out s) \<subseteq>\<^sub>m kinds (out s ++ W) \<and>
        (\<forall>u. fits (isl r) (out s ++ W) (out u) \<longrightarrow> m u = (r, effect u W L))"
    by blast
qed

lemma replays_return [replay_intros]: "replays (io_return a)"
  by (rule replays_pure [where r = "Inr a" and L = "[]"]) (simp add: io_return_def)

lemma replays_raise [replay_intros]: "replays (io_raise e)"
  by (rule replays_pure [where r = "Inl e" and L = "[]"]) (simp add: io_raise_def)

lemma replays_lift [replay_intros]: "replays (io_lift r)"
  by (rule replays_pure [where r = r and L = "[]"]) (simp add: io_lift_def)

lemma replays_emit [replay_intros]: "replays (emit ev)"
  by (rule replays_pure [where r = "Inr ()" and L = "[ev]"]) (simp add: emit_def effect_def)

lemma replays_print [replay_intros]: "replays (print l)"
  by (simp add: print_def replays_emit)

lemma replays_bind [replay_intros]:
  assumes m: "replays m" and f: "\<And>a. replays (f a)"
  shows "replays (io_bind m f)"
proof (rule replaysI)
  fix s
  from m obtain r1 W1 L1 where m1: "m s = (r1, effect s W1 L1)"
    and k1: "kinds (out s) \<subseteq>\<^sub>m kinds (out s ++ W1)"
    and u1: "\<And>u. fits (isl r1) (out s ++ W1) (out u) \<Longrightarrow> m u = (r1, effect u W1 L1)"
    by (rule replaysE [where s = s]) blast
  show "\<exists>r W L. io_bind m f s = (r, effect s W L) \<and> kinds (out s) \<subseteq>\<^sub>m kinds (out s ++ W) \<and>
        (\<forall>u. fits (isl r) (out s ++ W) (out u) \<longrightarrow> io_bind m f u = (r, effect u W L))"
  proof (cases r1)
    case (Inl e)
    have "io_bind m f s = (Inl e, effect s W1 L1)" using m1 Inl by (simp add: io_bind_def)
    moreover have "\<forall>u. fits (isl (Inl e :: exn + 'b)) (out s ++ W1) (out u) \<longrightarrow>
        io_bind m f u = (Inl e, effect u W1 L1)"
      using u1 Inl by (simp add: io_bind_def)
    ultimately show ?thesis using k1 by blast
  next
    case (Inr a)
    from f [of a] obtain r2 W2 L2 where m2: "f a (effect s W1 L1) = (r2, effect (effect s W1 L1) W2 L2)"
      and k2: "kinds (out (effect s W1 L1)) \<subseteq>\<^sub>m kinds (out (effect s W1 L1) ++ W2)"
      and u2: "\<And>u. fits (isl r2) (out (effect s W1 L1) ++ W2) (out u) \<Longrightarrow> f a u = (r2, effect u W2 L2)"
      by (rule replaysE [where s = "effect s W1 L1"]) blast
    have k2': "kinds (out s ++ W1) \<subseteq>\<^sub>m kinds ((out s ++ W1) ++ W2)" using k2 by simp
    have 1: "io_bind m f s = (r2, effect s (W1 ++ W2) (L1 @ L2))"
      using m1 Inr m2 by (simp add: io_bind_def)
    have 2: "kinds (out s) \<subseteq>\<^sub>m kinds (out s ++ (W1 ++ W2))"
      using k1 k2' by (auto intro: map_le_trans)
    have 3: "io_bind m f u = (r2, effect u (W1 ++ W2) (L1 @ L2))"
      if fit: "fits (isl r2) (out s ++ (W1 ++ W2)) (out u)" for u
    proof -
      from fit have fit': "fits (isl r2) ((out s ++ W1) ++ W2) (out u)" by simp
      then have "fits False (out s ++ W1) (out u)" using k2' by (rule fits_weaken)
      with u1 Inr have mu: "m u = (Inr a, effect u W1 L1)" by simp
      from fit' k2' have "fits (isl r2) ((out s ++ W1) ++ W2) (out u ++ W1)" by (rule fits_absorb)
      then have "f a (effect u W1 L1) = (r2, effect (effect u W1 L1) W2 L2)" using u2 by simp
      with mu show ?thesis by (simp add: io_bind_def)
    qed
    from 1 2 3 show ?thesis by blast
  qed
qed

lemma replays_if [replay_intros]:
  "(c \<Longrightarrow> replays m) \<Longrightarrow> (\<not> c \<Longrightarrow> replays n) \<Longrightarrow> replays (if c then m else n)"
  by simp

lemma replays_let [replay_intros]: "replays (f x) \<Longrightarrow> replays (let y = x in f y)"
  by simp

lemma map_add_twice: "(st ++ W) ++ W = st ++ W"
  by (rule ext) (simp add: map_add_def split: option.splits)

lemma replays_again:
  assumes "replays m" and "m s = (r, t)"
  shows "\<exists>L. m t = (r, t\<lparr>trace := trace t @ L\<rparr>)"
proof -
  from assms(1) obtain r' W L where ms: "m s = (r', effect s W L)"
    and u: "\<And>u. fits (isl r') (out s ++ W) (out u) \<Longrightarrow> m u = (r', effect u W L)"
    by (rule replaysE [where s = s]) blast
  from ms assms(2) have r: "r' = r" and t: "t = effect s W L" by simp_all
  have "fits (isl r') (out s ++ W) (out t)" using t by (simp add: fits_refl)
  then have "m t = (r', effect t W L)" by (rule u)
  moreover have "effect t W L = t\<lparr>trace := trace t @ L\<rparr>"
    using t by (simp add: effect_def map_add_twice)
  ultimately show ?thesis using r by auto
qed


lemma kinds_dir: "kinds st p = Some True \<longleftrightarrow> st p = Some DirNode"
  by (cases "st p") (auto simp: kinds_def)

lemma kinds_none: "kinds st p = None \<longleftrightarrow> st p = None"
  by (simp add: kinds_def)

lemma fits_dir: "fits exact t u \<Longrightarrow> is_dir_out t p \<Longrightarrow> is_dir_out u p"
proof -
  assume f: "fits exact t u" and d: "is_dir_out t p"
  show ?thesis
  proof (cases "p = []")
    case True
    then show ?thesis by (simp add: is_dir_out_def)
  next
    case False
    with d have "kinds t p = Some True" by (simp add: is_dir_out_def kinds_dir)
    with f have "kinds u p = Some True" by (auto simp: fits_def map_le_def dom_def)
    then show ?thesis by (simp add: is_dir_out_def kinds_dir)
  qed
qed

lemma fits_file:
  assumes "fits exact t u" and "t p = Some (FileNode c)"
  shows "\<not> is_dir_out u p \<or> p = []"
proof -
  from assms(2) have "kinds t p = Some False" by (simp add: kinds_def)
  with assms(1) have "kinds u p = Some False" by (auto simp: fits_def map_le_def dom_def)
  then have "u p \<noteq> Some DirNode" by (auto simp: kinds_def)
  then show ?thesis by (simp add: is_dir_out_def)
qed

lemma fits_exact_dir: "fits True t u \<Longrightarrow> is_dir_out u p = is_dir_out t p"
proof -
  assume "fits True t u"
  then have "kinds u p = kinds t p" by (simp add: fits_def)
  then have "(u p = Some DirNode) = (t p = Some DirNode)" by (simp add: kinds_dir [symmetric])
  then show ?thesis by (simp add: is_dir_out_def)
qed

lemma fits_exact_none: "fits True t u \<Longrightarrow> (u p = None) = (t p = None)"
proof -
  assume "fits True t u"
  then have "kinds u p = kinds t p" by (simp add: fits_def)
  then show ?thesis by (simp add: kinds_none [symmetric])
qed

lemma kinds_mono_new: "st p = None \<Longrightarrow> kinds st \<subseteq>\<^sub>m kinds (st(p \<mapsto> n))"
  by (auto simp: map_le_def kinds_def dom_def)

lemma kinds_mono_file: "\<not> is_dir_out st p \<Longrightarrow> kinds st \<subseteq>\<^sub>m kinds (st(p \<mapsto> FileNode c))"
proof -
  assume "\<not> is_dir_out st p"
  then have "st p \<noteq> Some DirNode" by (simp add: is_dir_out_def)
  then show ?thesis by (auto simp: map_le_def kinds_def dom_def)
qed

lemma effect_upd: "effect s [p \<mapsto> n] [] = s\<lparr>out := (out s)(p \<mapsto> n)\<rparr>"
  by (simp add: effect_def)

lemma parent_self: "p \<noteq> [] \<Longrightarrow> parent p \<noteq> p"
  by (cases p rule: rev_cases) (auto simp: parent_def)

lemma is_dir_out_upd:
  "p \<noteq> [] \<Longrightarrow> is_dir_out st (parent p) \<Longrightarrow> is_dir_out (st(p \<mapsto> n)) (parent p)"
  using parent_self [of p] by (auto simp: is_dir_out_def)

lemma replays_mkdir [replay_intros]: "replays (mkdir p)"
proof (rule replaysI)
  fix s
  let ?goal = "\<exists>r W L. mkdir p s = (r, effect s W L) \<and> kinds (out s) \<subseteq>\<^sub>m kinds (out s ++ W) \<and>
        (\<forall>u. fits (isl r) (out s ++ W) (out u) \<longrightarrow> mkdir p u = (r, effect u W L))"
  consider (there) "is_dir_out (out s) p"
    | (blocked) "\<not> is_dir_out (out s) p" "out s p \<noteq> None"
    | (make) "\<not> is_dir_out (out s) p" "out s p = None" "is_dir_out (out s) (parent p)"
    | (orphan) "\<not> is_dir_out (out s) p" "out s p = None" "\<not> is_dir_out (out s) (parent p)"
    by blast
  then show ?goal
  proof cases
    case there
    have "mkdir p s = (Inr (), effect s Map.empty [])" using there by (simp add: mkdir_def)
    moreover have "mkdir p u = (Inr (), effect u Map.empty [])"
      if "fits (isl (Inr () :: exn + unit)) (out s ++ Map.empty) (out u)" for u
      using that there fits_dir [of False "out s" "out u" p] by (simp add: mkdir_def)
    ultimately show ?thesis by (intro exI [of _ "Inr ()"] exI [of _ Map.empty] exI [of _ "[]"]) simp
  next
    case blocked
    have "mkdir p s = (Inl (OSError FileExistsError p), effect s Map.empty [])"
      using blocked by (simp add: mkdir_def)
    moreover have "mkdir p u = (Inl (OSError FileExistsError p), effect u Map.empty [])"
      if "fits (isl (Inl (OSError FileExistsError p) :: exn + unit)) (out s ++ Map.empty) (out u)" for u
      using that blocked fits_exact_dir [of "out s" "out u" p] fits_exact_none [of "out s" "out u" p]
      by (simp add: mkdir_def)
    ultimately show ?thesis
      by (intro exI [of _ "Inl (OSError FileExistsError p)"] exI [of _ Map.empty] exI [of _ "[]"]) simp
  next
    case make
    have 1: "mkdir p s = (Inr (), effect s [p \<mapsto> DirNode] [])"
      using make by (simp add: mkdir_def effect_upd)
    have 2: "kinds (out s) \<subseteq>\<^sub>m kinds (out s ++ [p \<mapsto> DirNode])"
      using make(2) by (simp add: kinds_mono_new)
    have 3: "mkdir p u = (Inr (), effect u [p \<mapsto> DirNode] [])"
      if "fits (isl (Inr () :: exn + unit)) (out s ++ [p \<mapsto> DirNode]) (out u)" for u
    proof -
      have "is_dir_out ((out s)(p \<mapsto> DirNode)) p" by (simp add: is_dir_out_def)
      with that have d: "is_dir_out (out u) p"
        using fits_dir [of False "(out s)(p \<mapsto> DirNode)" "out u" p] by simp
      with make(1) have "out u p = Some DirNode" by (auto simp: is_dir_out_def)
      then have "(out u)(p \<mapsto> DirNode) = out u" by (rule map_upd_triv)
      with d show ?thesis by (simp add: mkdir_def effect_upd)
    qed
    from 1 2 3 show ?thesis
      by (intro exI [of _ "Inr ()"] exI [of _ "[p \<mapsto> DirNode]"] exI [of _ "[]"]) simp
  next
    case orphan
    have "mkdir p s = (Inl (OSError (no_parent (out s) p) p), effect s Map.empty [])"
      using orphan by (simp add: mkdir_def)
    moreover have "mkdir p u = (Inl (OSError (no_parent (out s) p) p), effect u Map.empty [])"
      if "fits (isl (Inl (OSError (no_parent (out s) p) p) :: exn + unit))
            (out s ++ Map.empty) (out u)" for u
      using that orphan fits_exact_dir [of "out s" "out u"] fits_exact_none [of "out s" "out u"]
      by (simp add: mkdir_def no_parent_def)
    ultimately show ?thesis
      by (intro exI [of _ "Inl (OSError (no_parent (out s) p) p)"] exI [of _ Map.empty]
            exI [of _ "[]"]) simp
  qed
qed

lemma replays_mkdir_parents [replay_intros]: "replays (mkdir_parents p)"
proof (induction p rule: mkdir_parents.induct)
  case (1 p)
  show ?case
  proof (cases "p = []")
    case True
    then show ?thesis by (subst mkdir_parents.simps) (simp add: replays_return)
  next
    case False
    with 1 have "replays (mkdir_parents (parent p))" by simp
    then have "replays (io_bind (mkdir_parents (parent p)) (\<lambda>_. mkdir p))"
      by (rule replays_bind) (rule replays_mkdir)
    with False show ?thesis by (subst mkdir_parents.simps) simp
  qed
qed


lemma with_open_w_apply:
  "with_open_w p arg s =
     (if is_dir_out (out s) p then (Inl (OSError IsADirectoryError p), s)
      else if is_dir_out (out s) (parent p)
        then (case arg of
                Inl e \<Rightarrow> (Inl e, s\<lparr>out := (out s)(p \<mapsto> FileNode [])\<rparr>)
              | Inr text \<Rightarrow> (Inr (), s\<lparr>out := (out s)(p \<mapsto> FileNode text)\<rparr>))
      else (Inl (OSError (no_parent (out s) p) p), s))"
  by (simp add: with_open_w_def open_w_def io_bind_def io_lift_def f_write_def split: sum.splits)

lemma replays_with_open_w [replay_intros]: "replays (with_open_w p arg)"
proof (rule replaysI)
  fix s
  let ?goal = "\<exists>r W L. with_open_w p arg s = (r, effect s W L) \<and>
        kinds (out s) \<subseteq>\<^sub>m kinds (out s ++ W) \<and>
        (\<forall>u. fits (isl r) (out s ++ W) (out u) \<longrightarrow> with_open_w p arg u = (r, effect u W L))"
  have stuck: ?goal if run: "with_open_w p arg s = (Inl e, s)"
    and same: "\<And>u. is_dir_out (out u) p = is_dir_out (out s) p \<Longrightarrow>
        is_dir_out (out u) (parent p) = is_dir_out (out s) (parent p) \<Longrightarrow>
        (out u (parent p) = None) = (out s (parent p) = None) \<Longrightarrow>
        with_open_w p arg u = (Inl e, u)" for e
  proof -
    have "with_open_w p arg u = (Inl e, effect u Map.empty [])"
      if "fits (isl (Inl e :: exn + unit)) (out s ++ Map.empty) (out u)" for u
      using that same [of u] fits_exact_dir [of "out s" "out u"]
        fits_exact_none [of "out s" "out u"] by simp
    with run show ?thesis
      by (intro exI [of _ "Inl e"] exI [of _ Map.empty] exI [of _ "[]"]) simp
  qed
  have opened: ?goal if nd: "\<not> is_dir_out (out s) p" and pd: "is_dir_out (out s) (parent p)"
    and run: "with_open_w p arg s = (r, s\<lparr>out := (out s)(p \<mapsto> FileNode c)\<rparr>)"
    and same: "\<And>u. \<not> is_dir_out (out u) p \<Longrightarrow> is_dir_out (out u) (parent p) \<Longrightarrow>
        with_open_w p arg u = (r, u\<lparr>out := (out u)(p \<mapsto> FileNode c)\<rparr>)" for r c
  proof -
    from nd have ne: "p \<noteq> []" by (auto simp: is_dir_out_def)
    have 1: "with_open_w p arg s = (r, effect s [p \<mapsto> FileNode c] [])"
      using run by (simp add: effect_upd)
    have 2: "kinds (out s) \<subseteq>\<^sub>m kinds (out s ++ [p \<mapsto> FileNode c])"
      using nd by (simp add: kinds_mono_file)
    have 3: "with_open_w p arg u = (r, effect u [p \<mapsto> FileNode c] [])"
      if "fits (isl r) (out s ++ [p \<mapsto> FileNode c]) (out u)" for u
    proof -
      from that have f: "fits (isl r) ((out s)(p \<mapsto> FileNode c)) (out u)" by simp
      have "((out s)(p \<mapsto> FileNode c)) p = Some (FileNode c)" by simp
      with f ne have a: "\<not> is_dir_out (out u) p" using fits_file by blast
      from ne pd have "is_dir_out ((out s)(p \<mapsto> FileNode c)) (parent p)" by (rule is_dir_out_upd)
      with f have b: "is_dir_out (out u) (parent p)" by (rule fits_dir)
      from a b show ?thesis by (simp add: same effect_upd)
    qed
    from 1 2 3 show ?thesis
      by (intro exI [of _ r] exI [of _ "[p \<mapsto> FileNode c]"] exI [of _ "[]"]) simp
  qed
  consider (directory) "is_dir_out (out s) p"
    | (orphan) "\<not> is_dir_out (out s) p" "\<not> is_dir_out (out s) (parent p)"
    | (raised) e where "\<not> is_dir_out (out s) p" "is_dir_out (out s) (parent p)" "arg = Inl e"
    | (written) t where "\<not> is_dir_out (out s) p" "is_dir_out (out s) (parent p)" "arg = Inr t"
    by (cases arg) blast+
  then show ?goal
  proof cases
    case directory
    then show ?thesis by (intro stuck [of "OSError IsADirectoryError p"]) (simp_all add: with_open_w_apply)
  next
    case orphan
    then show ?thesis
      by (intro stuck [of "OSError (no_parent (out s) p) p"])
         (simp_all add: with_open_w_apply no_parent_def)
  next
    case raised
    then show ?thesis by (intro opened [of "Inl e" "[]"]) (simp_all add: with_open_w_apply)
  next
    case written
    then show ?thesis by (intro opened [of "Inr ()" t]) (simp_all add: with_open_w_apply)
  qed
qed

lemma replays_case_sum [replay_intros]:
  "(\<And>e. replays (f e)) \<Longrightarrow> (\<And>a. replays (g a)) \<Longrightarrow> replays (case x of Inl e \<Rightarrow> f e | Inr a \<Rightarrow> g a)"
  by (cases x) simp_all

lemma replays_case_outcome [replay_intros]:
  "(\<And>m. replays (f m)) \<Longrightarrow> (\<And>m. replays (g m)) \<Longrightarrow> (\<And>st b. replays (h st b)) \<Longrightarrow>
   replays (case x of OpenFails m \<Rightarrow> f m | RequestFails m \<Rightarrow> g m | Response st b \<Rightarrow> h st b)"
  by (cases x) simp_all

lemma replays_process_single_file [replay_intros]: "replays (process_single_file E self file_path)"
  unfolding process_single_file_def by (intro replay_intros)

lemma replays_save_outputs [replay_intros]: "replays (save_outputs E self file_path response_data)"
  unfolding save_outputs_def by (intro replay_intros)

lemma replays_process_files [replay_intros]: "replays (process_files E self n idx files)"
proof (induction files arbitrary: idx)
  case Nil
  show ?case by (simp add: replays_return)
next
  case (Cons file_path files)
  show ?case unfolding process_files.simps by (intro replay_intros Cons.IH)
qed

lemma replays_process_directory [replay_intros]: "replays (process_directory E self)"
  unfolding process_directory_def by (intro replay_intros)

lemma replays_init [replay_intros]: "replays (init E url inp outp)"
  unfolding init_def by (intro replay_intros)

lemma replays_run: "replays (run E url a)"
  unfolding run_def by (intro replay_intros)

lemma replays_rerun:
  assumes "replays m" and "m s = (r, t)" and "out u = out t"
  shows "\<exists>L. m u = (r, u\<lparr>trace := trace u @ L\<rparr>)"
proof -
  from assms(1) obtain r' W L where ms: "m s = (r', effect s W L)"
    and again: "\<And>u. fits (isl r') (out s ++ W) (out u) \<Longrightarrow> m u = (r', effect u W L)"
    by (rule replaysE [where s = s]) blast
  from ms assms(2) have r: "r' = r" and t: "t = effect s W L" by simp_all
  from t assms(3) have o: "out u = out s ++ W" by simp
  then have "fits (isl r') (out s ++ W) (out u)" by (simp add: fits_refl)
  then have "m u = (r', effect u W L)" by (rule again)
  moreover have "effect u W L = u\<lparr>trace := trace u @ L\<rparr>"
    using o by (simp add: effect_def map_add_twice)
  ultimately show ?thesis using r by auto
qed

lemma main_of_run:
  assumes "validate_url E (arg_api_url a) = Inr url" and "run E url a s = (r, t)"
  shows "fst (main E a s) = (if isl r then 1 else 0) \<and> out (snd (main E a s)) = out t"
  using assms by (auto simp: main_def split: sum.splits exn.splits)

text \<open>
  Claim C8.  A second run in the same environment (the same input tree, the same answers
  of the service), started on the output that the first run left, ends with the same exit
  status and leaves every artifact as it was: each structured-data file and each text file
  is overwritten with the same bytes, and nothing is added or removed.
\<close>

theorem C8_second_run_same_artifacts:
  "out (snd (main E a (snd (main E a s)))) = out (snd (main E a s)) \<and>
   fst (main E a (snd (main E a s))) = fst (main E a s)"
proof (cases "validate_url E (arg_api_url a)")
  case (Inl e)
  then show ?thesis by (simp add: main_def)
next
  case (Inr url)
  obtain r t where run1: "run E url a s = (r, t)" by (cases "run E url a s")
  from Inr run1 have m1: "fst (main E a s) = (if isl r then 1 else 0)"
    and o1: "out (snd (main E a s)) = out t"
    using main_of_run by blast+
  from replays_run run1 o1 obtain L
    where run2: "run E url a (snd (main E a s)) =
      (r, (snd (main E a s))\<lparr>trace := trace (snd (main E a s)) @ L\<rparr>)"
    using replays_rerun by blast
  from main_of_run [OF Inr run2] m1 show ?thesis by simp
qed

section \<open>Failures\<close>

lemma io_bind_return [simp]: "io_bind (io_return a) f = f a"
  by (rule ext) (simp add: io_bind_def io_return_def)

lemma io_bind_lift_Inr [simp]: "io_bind (io_lift (Inr a)) f = f a"
  by (rule ext) (simp add: io_bind_def io_lift_def)

lemma io_bind_lift_Inl [simp]: "io_bind (io_lift (Inl e)) f s = (Inl e, s)"
  by (simp add: io_bind_def io_lift_def)

lemma io_bind_raise [simp]: "io_bind (io_raise e) f s = (Inl e, s)"
  by (simp add: io_bind_def io_raise_def)

lemma io_bind_emit [simp]: "io_bind (emit ev) f s = f () (s\<lparr>trace := trace s @ [ev]\<rparr>)"
  by (simp add: io_bind_def emit_def)

lemma io_bind_print [simp]: "io_bind (print l) f s = f () (s\<lparr>trace := trace s @ [Print l]\<rparr>)"
  by (simp add: print_def)

lemma print_apply [simp]: "print l s = (Inr (), s\<lparr>trace := trace s @ [Print l]\<rparr>)"
  by (simp add: print_def emit_def)

lemma io_return_apply [simp]: "io_return a s = (Inr a, s)"
  by (simp add: io_return_def)

lemma io_raise_apply [simp]: "io_raise e s = (Inl e, s)"
  by (simp add: io_raise_def)

lemma io_bind_Inr: "m s = (Inr a, s') \<Longrightarrow> io_bind m f s = f a s'"
  by (simp add: io_bind_def)

lemma io_bind_Inl: "m s = (Inl e, s') \<Longrightarrow> io_bind m f s = (Inl e, s')"
  by (simp add: io_bind_def)

lemma get_relative_path_below [simp]: "get_relative_path self (input_dir self @ rel) = Inr rel"
  by (simp add: get_relative_path_def)

lemma trace_grows:
  assumes "replays m"
  shows "set (trace s) \<subseteq> set (trace (snd (m s)))"
proof -
  from assms obtain r W L where "m s = (r, effect s W L)"
    by (rule replaysE [where s = s]) blast
  then show ?thesis by simp
qed

lemma process_single_file_failed:
  assumes "failed (respond E (api_url self @ ''/parse_document/ppt'') p)"
  shows "\<exists>evs l. (\<forall>s. process_single_file E self p s = (Inr JNull, s\<lparr>trace := trace s @ evs @ [Print l]\<rparr>)) \<and>
      ((\<exists>status. l = ErrorProcessingStatus p status) \<or> (\<exists>msg. l = ErrorProcessingExc p msg))"
proof (cases "respond E (api_url self @ ''/parse_document/ppt'') p")
  case (OpenFails msg)
  then have "\<forall>s. process_single_file E self p s =
      (Inr JNull, s\<lparr>trace := trace s @ [OpenRead p] @ [Print (ErrorProcessingExc p msg)]\<rparr>)"
    by (simp add: process_single_file_def)
  then show ?thesis by blast
next
  case (RequestFails msg)
  then have "\<forall>s. process_single_file E self p s =
      (Inr JNull, s\<lparr>trace := trace s @ [OpenRead p, Post (api_url self @ ''/parse_document/ppt'') p] @
         [Print (ErrorProcessingExc p msg)]\<rparr>)"
    by (simp add: process_single_file_def)
  then show ?thesis by blast
next
  case (Response status body)
  show ?thesis
  proof (cases "status = 200")
    case False
    with Response have "\<forall>s. process_single_file E self p s =
        (Inr JNull, s\<lparr>trace := trace s @ [OpenRead p, Post (api_url self @ ''/parse_document/ppt'') p] @
           [Print (ErrorProcessingStatus p status)]\<rparr>)"
      by (simp add: process_single_file_def)
    then show ?thesis by blast
  next
    case True
    with assms Response obtain msg where "body = Inl msg" by (cases body) auto
    with Response True have "\<forall>s. process_single_file E self p s =
        (Inr JNull, s\<lparr>trace := trace s @ [OpenRead p, Post (api_url self @ ''/parse_document/ppt'') p] @
           [Print (ErrorProcessingExc p msg)]\<rparr>)"
      by (simp add: process_single_file_def)
    then show ?thesis by blast
  qed
qed

lemma process_single_file_opens:
  "\<exists>j s'. process_single_file E self p s = (Inr j, s') \<and> OpenRead p \<in> set (trace s')"
  by (cases "respond E (api_url self @ ''/parse_document/ppt'') p")
     (auto simp: process_single_file_def split: sum.splits)

lemma process_files_opens_first:
  "OpenRead (input_dir self @ rel) \<in>
     set (trace (snd (process_files E self n idx ((input_dir self @ rel) # files) s)))"
proof -
  let ?p = "input_dir self @ rel"
  let ?s1 = "s\<lparr>trace := trace s @ [Print (Processing idx n rel)]\<rparr>"
  let ?rest = "\<lambda>response_data.
     io_bind (if truthy response_data
              then io_bind (save_outputs E self ?p response_data) (\<lambda>_.
                   print (SuccessfullyProcessed rel))
              else print (FailedToProcess rel)) (\<lambda>_.
     process_files E self n (idx + 1) files)"
  obtain j s2 where psf: "process_single_file E self ?p ?s1 = (Inr j, s2)"
    and o: "OpenRead ?p \<in> set (trace s2)"
    using process_single_file_opens by blast
  have "process_files E self n idx (?p # files) s = ?rest j s2"
    using psf by (simp add: io_bind_Inr)
  moreover have "replays (?rest j)" by (intro replay_intros)
  then have "set (trace s2) \<subseteq> set (trace (snd (?rest j s2)))" by (rule trace_grows)
  ultimately show ?thesis using o by auto
qed

text \<open>
  Claim C3.  When the upload of a candidate file fails (the file cannot be opened, the
  request raises, the status is not 200, or the body cannot be parsed), the uploader prints
  an error line for that file and returns \<open>None\<close> without raising; the loop prints that
  the file failed, changes nothing in the output, and goes on with the rest of the list
  exactly as it would have from the start, so the next file is opened for upload.
\<close>

theorem C3_failed_upload_is_skipped:
  assumes "failed (respond E (api_url self @ ''/parse_document/ppt'') (input_dir self @ rel))"
  shows "\<exists>evs l.
      process_single_file E self (input_dir self @ rel) s =
        (Inr JNull, s\<lparr>trace := trace s @ evs @ [Print l]\<rparr>) \<and>
      ((\<exists>status. l = ErrorProcessingStatus (input_dir self @ rel) status) \<or>
       (\<exists>msg. l = ErrorProcessingExc (input_dir self @ rel) msg)) \<and>
      process_files E self n idx ((input_dir self @ rel) # files) s =
        process_files E self n (idx + 1) files
          (s\<lparr>trace := trace s @ [Print (Processing idx n rel)] @ evs @
               [Print l, Print (FailedToProcess rel)]\<rparr>) \<and>
      (\<forall>rel' rest. files = (input_dir self @ rel') # rest \<longrightarrow>
         OpenRead (input_dir self @ rel') \<in>
           set (trace (snd (process_files E self n idx ((input_dir self @ rel) # files) s))))"
proof -
  let ?p = "input_dir self @ rel"
  let ?s1 = "s\<lparr>trace := trace s @ [Print (Processing idx n rel)]\<rparr>"
  from process_single_file_failed [OF assms] obtain evs l
    where a: "\<And>s. process_single_file E self ?p s = (Inr JNull, s\<lparr>trace := trace s @ evs @ [Print l]\<rparr>)"
      and b: "(\<exists>status. l = ErrorProcessingStatus ?p status) \<or> (\<exists>msg. l = ErrorProcessingExc ?p msg)"
    by blast
  have c: "process_files E self n idx (?p # files) s =
        process_files E self n (idx + 1) files
          (s\<lparr>trace := trace s @ [Print (Processing idx n rel)] @ evs @
               [Print l, Print (FailedToProcess rel)]\<rparr>)"
    using a [of ?s1] by (simp add: io_bind_Inr)
  have d: "OpenRead (input_dir self @ rel') \<in>
           set (trace (snd (process_files E self n idx (?p # files) s)))"
    if "files = (input_dir self @ rel') # rest" for rel' rest
  proof -
    have "OpenRead (input_dir self @ rel') \<in>
        set (trace (snd (process_files E self n (idx + 1) ((input_dir self @ rel') # rest)
          (s\<lparr>trace := trace s @ [Print (Processing idx n rel)] @ evs @
               [Print l, Print (FailedToProcess rel)]\<rparr>))))"
      by (rule process_files_opens_first)
    with c that show ?thesis by simp
  qed
  from a [of s] b c d show ?thesis by blast
qed

theorem C3_failed_upload_is_skipped_witness:
  "failed (respond flaky_env (api_url demo_processor @ ''/parse_document/ppt'')
     (input_dir demo_processor @ [''A'', ''report.pptx''])) \<and>
   OpenRead (input_dir demo_processor @ [''A'', ''notes.txt'']) \<in>
     set (trace (snd (process_files flaky_env demo_processor 2 1
       [input_dir demo_processor @ [''A'', ''report.pptx''],
        input_dir demo_processor @ [''A'', ''notes.txt'']] fresh)))"
proof -
  have h: "failed (respond flaky_env (api_url demo_processor @ ''/parse_document/ppt'')
     (input_dir demo_processor @ [''A'', ''report.pptx'']))"
    by (simp add: flaky_env_def name_def)
  from C3_failed_upload_is_skipped [OF h, of fresh 2 1 "[input_dir demo_processor @ [''A'', ''notes.txt'']]"] h
  show ?thesis by blast
qed





lemma init_missing:
  assumes "\<not> exists E (resolve E inp)"
  shows "init E url inp outp s =
    (Inl (ValueError (InputDirMissing (resolve E inp))), s\<lparr>trace := trace s @ [Stat (resolve E inp)]\<rparr>)"
  using assms by (simp add: init_def Let_def)

text \<open>
  Claim C7.  When the resolved input directory does not exist, the run prints an error,
  ends with a non-zero status, leaves the output untouched, and neither scans the input
  nor opens or uploads any file.  With a valid URL the constructor raises \<open>ValueError\<close>
  after examining the directory, \<open>main\<close> prints it as \<open>Error: ...\<close> and returns 1.
\<close>

theorem C7_missing_input_dir:
  assumes "\<not> exists E (resolve E (arg_input_dir a))"
  shows "\<exists>evs l.
      main E a s = (fst (main E a s), s\<lparr>trace := trace s @ evs\<rparr>) \<and>
      fst (main E a s) \<in> {1, 2} \<and>
      Print l \<in> set evs \<and> (\<forall>p. OpenRead p \<notin> set evs) \<and> (\<forall>u p. Post u p \<notin> set evs) \<and>
      (\<forall>p. Scan p \<notin> set evs) \<and>
      (\<not> isl (validate_url E (arg_api_url a)) \<longrightarrow>
         fst (main E a s) = 1 \<and>
         evs = [Stat (resolve E (arg_input_dir a)),
                Print (ErrorLine (InputDirMissing (resolve E (arg_input_dir a))))])"
proof (cases "validate_url E (arg_api_url a)")
  case (Inl e)
  then have "main E a s = (2, s\<lparr>trace := trace s @ [Print (UsageError e)]\<rparr>)"
    by (simp add: main_def)
  with Inl show ?thesis
    by (intro exI [of _ "[Print (UsageError e)]"] exI [of _ "UsageError e"]) simp
next
  case (Inr url)
  let ?d = "resolve E (arg_input_dir a)"
  have "run E url a s = (Inl (ValueError (InputDirMissing ?d)), s\<lparr>trace := trace s @ [Stat ?d]\<rparr>)"
    using init_missing [OF assms] by (simp add: run_def io_bind_Inl)
  with Inr have "main E a s =
      (1, s\<lparr>trace := trace s @ [Stat ?d, Print (ErrorLine (InputDirMissing ?d))]\<rparr>)"
    by (simp add: main_def)
  with Inr show ?thesis
    by (intro exI [of _ "[Stat ?d, Print (ErrorLine (InputDirMissing ?d))]"]
          exI [of _ "ErrorLine (InputDirMissing ?d)"]) simp
qed

theorem C7_missing_input_dir_witness:
  "\<not> exists demo_env (resolve demo_env (arg_input_dir missing_dir_args)) \<and>
   main demo_env missing_dir_args fresh =
     (1, fresh\<lparr>trace := [Stat [''srv'', ''nowhere''],
                          Print (ErrorLine (InputDirMissing [''srv'', ''nowhere'']))]\<rparr>)"
proof -
  have h: "\<not> exists demo_env (resolve demo_env (arg_input_dir missing_dir_args))"
    by (simp add: exists_def stat_def missing_dir_args_def demo_args_def demo_env_def resolve_srv_def)
  have v: "\<not> isl (validate_url demo_env (arg_api_url missing_dir_args))"
    by (simp add: validate_url_def missing_dir_args_def demo_args_def demo_env_def urlsplit_core_def
        lower_def lower_char_def)
  have r: "resolve demo_env (arg_input_dir missing_dir_args) = [''srv'', ''nowhere'']"
    by (simp add: missing_dir_args_def demo_args_def demo_env_def resolve_srv_def)
  from C7_missing_input_dir [OF h, of fresh] v r h show ?thesis
    by (auto simp: fresh_def)
qed

section \<open>The output writer\<close>



lemma with_open_w_ok:
  "with_open_w p arg s = (Inr (), s') \<Longrightarrow>
     \<exists>text. arg = Inr text \<and> s' = s\<lparr>out := (out s)(p \<mapsto> FileNode text)\<rparr>"
  by (auto simp: with_open_w_apply split: if_splits sum.splits)

lemma name_below [simp]: "name (d @ dir @ [n]) = n"
  by (simp add: name_def)

lemma stem_below: "stem (d @ dir @ [n]) = stem [n]"
  by (simp add: stem_def name_def)

lemma suffix_below: "suffix (d @ dir @ [n]) = suffix [n]"
  by (simp add: suffix_def name_def)

lemma stem_suffix: "stem p @ suffix p = name p"
  by (simp add: stem_def suffix_def Let_def)

lemma get_relative_path_below2 [simp]:
  "get_relative_path self (input_dir self @ dir @ [n]) = Inr (dir @ [n])"
  by (simp add: get_relative_path_def)

lemma parent_snoc [simp]: "parent (dir @ [n]) = dir"
  by (simp add: parent_def butlast_append)

text \<open>What a call of \<open>save_outputs\<close> that returns has done.\<close>

lemma save_outputs_ok:
  assumes ok: "save_outputs E self (input_dir self @ dir @ [n]) r s = (Inr (), s')"
  defines "safe \<equiv> get_safe_filename (stem [n])"
  defines "jp \<equiv> json_dir self @ dir @ [safe @ ''.json'']"
  defines "mp \<equiv> md_dir self @ dir @ [safe @ ''.md'']"
  shows "\<exists>s1 s2 has_text.
      mkdir_parents (json_dir self @ dir) s = (Inr (), s1) \<and>
      mkdir_parents (md_dir self @ dir) s1 = (Inr (), s2) \<and>
      py_in ''text'' r = Inr has_text \<and>
      (if has_text
       then \<exists>t. py_getitem r ''text'' = Inr (JStr t) \<and>
              s' = s2\<lparr>out := (out s2)(jp \<mapsto> FileNode (json_dumps (float_repr E) r),
                                       mp \<mapsto> FileNode t)\<rparr>
       else s' = s2\<lparr>out := (out s2)(jp \<mapsto> FileNode (json_dumps (float_repr E) r))\<rparr>)"
proof -
  obtain r1 s1 where m1: "mkdir_parents (json_dir self @ dir) s = (r1, s1)"
    by (cases "mkdir_parents (json_dir self @ dir) s")
  obtain r2 s2 where m2: "mkdir_parents (md_dir self @ dir) s1 = (r2, s2)"
    by (cases "mkdir_parents (md_dir self @ dir) s1")
  obtain r3 s3 where m3: "with_open_w jp (Inr (json_dumps (float_repr E) r)) s2 = (r3, s3)"
    by (cases "with_open_w jp (Inr (json_dumps (float_repr E) r)) s2")
  from ok m1 have r1: "r1 = Inr ()"
    by (cases r1) (auto simp: save_outputs_def Let_def stem_below io_bind_def io_lift_def)
  from ok m1 m2 r1 have r2: "r2 = Inr ()"
    by (cases r2) (auto simp: save_outputs_def Let_def stem_below io_bind_def io_lift_def)
  from ok m1 m2 m3 r1 r2 have r3: "r3 = Inr ()"
    by (cases r3) (auto simp: save_outputs_def Let_def stem_below io_bind_def io_lift_def safe_def jp_def)
  from m3 r3 have s3: "s3 = s2\<lparr>out := (out s2)(jp \<mapsto> FileNode (json_dumps (float_repr E) r))\<rparr>"
    using with_open_w_ok by fastforce
  from ok m1 m2 m3 r1 r2 r3 obtain has_text where h: "py_in ''text'' r = Inr has_text"
    by (cases "py_in ''text'' r")
       (auto simp: save_outputs_def Let_def stem_below io_bind_def io_lift_def safe_def jp_def)
  have rest: "(if has_text
      then with_open_w mp (case py_getitem r ''text'' of Inl e \<Rightarrow> Inl e | Inr text \<Rightarrow> as_str text)
      else io_return ()) s3 = (Inr (), s')"
    using ok m1 m2 m3 r1 r2 r3 h
    by (cases has_text)
       (simp_all add: save_outputs_def Let_def stem_below io_bind_def io_lift_def safe_def jp_def mp_def)
  show ?thesis
  proof (cases has_text)
    case False
    with rest have "s' = s3" by (simp add: io_return_def)
    with m1 m2 r1 r2 h s3 False show ?thesis by auto
  next
    case True
    with rest obtain t where
      a: "(case py_getitem r ''text'' of Inl e \<Rightarrow> Inl e | Inr text \<Rightarrow> as_str text) = Inr t"
      and b: "s' = s3\<lparr>out := (out s3)(mp \<mapsto> FileNode t)\<rparr>"
      using with_open_w_ok by fastforce
    from a have "py_getitem r ''text'' = Inr (JStr t)"
      by (auto split: sum.splits elim: as_str.elims)
    with m1 m2 r1 r2 h s3 b True show ?thesis by auto
  qed
qed

lemma replace_length: "length (replace a b s) = length s"
  by (simp add: replace_def)

lemma replace_nth: "i < length s \<Longrightarrow> replace a b s ! i = (if s ! i = a then b else s ! i)"
  by (simp add: replace_def)


lemma json_md_differ: "jd @ dir @ [x @ ''.json''] \<noteq> md @ dir @ [x @ ''.md'']"
proof
  assume "jd @ dir @ [x @ ''.json''] = md @ dir @ [x @ ''.md'']"
  then have "last (jd @ dir @ [x @ ''.json'']) = last (md @ dir @ [x @ ''.md''])" by simp
  then show False by simp
qed





text \<open>
  Claim C4.  When the writer returns for the source file \<open>input_root/dir/n\<close>, the
  structured artifact is the file \<open>output_root/json/dir/safe_stem.json\<close> and, when the
  result has the text field, the text artifact is the file
  \<open>output_root/markdown/dir/safe_stem.md\<close>.  Here \<open>safe_stem\<close> is the stem of \<open>n\<close> (the name
  without its extension) with every space replaced by an underscore and every other
  character unchanged.
\<close>

theorem C4_artifact_paths:
  assumes "made_by_init self"
    and "save_outputs E self (input_dir self @ dir @ [n]) r s = (Inr (), s')"
  shows "\<exists>safe_stem.
      out s' (output_dir self @ [''json''] @ dir @ [safe_stem @ ''.json'']) =
        Some (FileNode (json_dumps (float_repr E) r)) \<and>
      (py_in ''text'' r = Inr True \<longrightarrow>
         (\<exists>t. out s' (output_dir self @ [''markdown''] @ dir @ [safe_stem @ ''.md'']) =
            Some (FileNode t))) \<and>
      safe_stem = get_safe_filename (stem (input_dir self @ dir @ [n])) \<and>
      stem (input_dir self @ dir @ [n]) @ suffix (input_dir self @ dir @ [n]) = n \<and>
      length safe_stem = length (stem (input_dir self @ dir @ [n])) \<and>
      (\<forall>i < length safe_stem.
         safe_stem ! i =
           (if stem (input_dir self @ dir @ [n]) ! i = CHR '' '' then CHR ''_''
            else stem (input_dir self @ dir @ [n]) ! i))"
proof -
  let ?st = "stem [n]"
  let ?safe = "get_safe_filename ?st"
  let ?jp = "json_dir self @ dir @ [?safe @ ''.json'']"
  let ?mp = "md_dir self @ dir @ [?safe @ ''.md'']"
  from save_outputs_ok [OF assms(2)] obtain s2 has_text where
    h: "py_in ''text'' r = Inr has_text"
    and f: "if has_text
       then \<exists>t. py_getitem r ''text'' = Inr (JStr t) \<and>
              s' = s2\<lparr>out := (out s2)(?jp \<mapsto> FileNode (json_dumps (float_repr E) r),
                                       ?mp \<mapsto> FileNode t)\<rparr>
       else s' = s2\<lparr>out := (out s2)(?jp \<mapsto> FileNode (json_dumps (float_repr E) r))\<rparr>"
    by blast
  have j: "out s' ?jp = Some (FileNode (json_dumps (float_repr E) r))"
    using f json_md_differ [of "json_dir self" dir ?safe "md_dir self"]
    by (cases has_text) auto
  have m: "py_in ''text'' r = Inr True \<longrightarrow> (\<exists>t. out s' ?mp = Some (FileNode t))"
    using f h by (cases has_text) auto
  have n: "?st @ suffix [n] = n"
    using stem_suffix [of "[n]"] by (simp add: name_def)
  have l: "length ?safe = length ?st" by (simp add: get_safe_filename_def replace_length)
  have c: "\<forall>i < length ?safe. ?safe ! i = (if ?st ! i = CHR '' '' then CHR ''_'' else ?st ! i)"
    by (simp add: get_safe_filename_def replace_length replace_nth)
  from assms(1) have d: "json_dir self = output_dir self @ [''json'']"
    "md_dir self = output_dir self @ [''markdown'']"
    by (simp_all add: made_by_init_def)
  from j m n l c show ?thesis
    unfolding d stem_below suffix_below by (intro exI [of _ ?safe]) simp
qed



theorem C4_artifact_paths_witness:
  "made_by_init demo_processor \<and>
   fst (save_outputs demo_env demo_processor (input_dir demo_processor @ [''A''] @ [''my report.pptx''])
          (JObj [(''text'', JStr ''hello'')]) fresh) = Inr () \<and>
   out (snd (save_outputs demo_env demo_processor
          (input_dir demo_processor @ [''A''] @ [''my report.pptx''])
          (JObj [(''text'', JStr ''hello'')]) fresh))
     [''srv'', ''output'', ''json'', ''A'', ''my_report.json''] =
     Some (FileNode (json_dumps (float_repr demo_env) (JObj [(''text'', JStr ''hello'')]))) \<and>
   (\<exists>t. out (snd (save_outputs demo_env demo_processor
          (input_dir demo_processor @ [''A''] @ [''my report.pptx''])
          (JObj [(''text'', JStr ''hello'')]) fresh))
     [''srv'', ''output'', ''markdown'', ''A'', ''my_report.md''] = Some (FileNode t))"
proof -
  let ?run = "save_outputs demo_env demo_processor
          (input_dir demo_processor @ [''A''] @ [''my report.pptx''])
          (JObj [(''text'', JStr ''hello'')]) fresh"
  have h1: "made_by_init demo_processor"
    by (simp add: made_by_init_def demo_processor_def)
  have h2: "fst ?run = Inr ()" by code_simp
  then have run: "?run = (Inr (), snd ?run)" by (simp add: prod_eq_iff)
  have safe: "get_safe_filename (stem (input_dir demo_processor @ [''A''] @ [''my report.pptx''])) =
      ''my_report''"
    by code_simp
  have o: "output_dir demo_processor = [''srv'', ''output'']" by (simp add: demo_processor_def)
  from C4_artifact_paths [OF h1 run] h1 h2 show ?thesis unfolding safe o by simp
qed



text \<open>
  Claim C2 on the code.  One candidate file, status 200, the body \<open>{}\<close>: the body parses,
  but \<open>if response_data:\<close> takes the empty object for a failure, so the writer is not
  called, the file is reported as failed and no structured artifact exists after the run.
\<close>

theorem C2_empty_object_not_written:
  "respond hollow_env ''http://example.com:8000/parse_document/ppt'' [''srv'', ''in'', ''blank.txt''] =
     Response 200 (Inr (JObj [])) \<and>
   get_all_files hollow_env demo_processor = [[''srv'', ''in'', ''blank.txt'']] \<and>
   fst (main hollow_env demo_args fresh) = 0 \<and>
   trace (snd (main hollow_env demo_args fresh)) =
     [Stat [''srv'', ''in''], Print (InputDirectory [''srv'', ''in'']),
      Print (OutputDirectory [''srv'', ''output'']), Scan [''srv'', ''in''],
      Print (FoundFiles 1), Print (Processing 1 1 [''blank.txt'']),
      OpenRead [''srv'', ''in'', ''blank.txt''],
      Post ''http://example.com:8000/parse_document/ppt'' [''srv'', ''in'', ''blank.txt''],
      Print (FailedToProcess [''blank.txt''])] \<and>
   out (snd (main hollow_env demo_args fresh)) [''srv'', ''output'', ''json'', ''blank.json''] = None"
  by code_simp

lemma save_outputs_json:
  assumes "save_outputs E self (input_dir self @ dir @ [n]) r s = (Inr (), s')"
  shows "out s' (json_dir self @ dir @ [get_safe_filename (stem [n]) @ ''.json'']) =
    Some (FileNode (json_dumps (float_repr E) r))"
proof -
  let ?safe = "get_safe_filename (stem [n])"
  let ?jp = "json_dir self @ dir @ [?safe @ ''.json'']"
  let ?mp = "md_dir self @ dir @ [?safe @ ''.md'']"
  from save_outputs_ok [OF assms] obtain s2 has_text where
    f: "if has_text
       then \<exists>t. py_getitem r ''text'' = Inr (JStr t) \<and>
              s' = s2\<lparr>out := (out s2)(?jp \<mapsto> FileNode (json_dumps (float_repr E) r),
                                       ?mp \<mapsto> FileNode t)\<rparr>
       else s' = s2\<lparr>out := (out s2)(?jp \<mapsto> FileNode (json_dumps (float_repr E) r))\<rparr>"
    by blast
  then show ?thesis
    using json_md_differ [of "json_dir self" dir ?safe "md_dir self"]
    by (cases has_text) auto
qed

text \<open>
  Claim C9.  The safe stem does not determine the file: in any directory the candidates
  \<open>a b.txt\<close> and \<open>a_b.txt\<close> have the same safe stem.  Whenever two files of one input
  directory have the same safe stem, the writer puts both structured artifacts at the
  same path, so after the second call that path holds the second result, whatever the
  first call left there.
\<close>

theorem C9_safe_stem_collision:
  "should_process_file (d @ [''a b.txt'']) \<and> should_process_file (d @ [''a_b.txt'']) \<and>
   get_safe_filename (stem (d @ [''a b.txt''])) = get_safe_filename (stem (d @ [''a_b.txt''])) \<and>
   (get_safe_filename (stem (input_dir self @ dir @ [n1])) =
      get_safe_filename (stem (input_dir self @ dir @ [n2])) \<longrightarrow>
    save_outputs E self (input_dir self @ dir @ [n1]) r1 s = (Inr (), s1) \<longrightarrow>
    save_outputs E self (input_dir self @ dir @ [n2]) r2 t = (Inr (), s2) \<longrightarrow>
    out s1 (json_dir self @ dir @ [get_safe_filename (stem (input_dir self @ dir @ [n1])) @ ''.json'']) =
      Some (FileNode (json_dumps (float_repr E) r1)) \<and>
    out s2 (json_dir self @ dir @ [get_safe_filename (stem (input_dir self @ dir @ [n1])) @ ''.json'']) =
      Some (FileNode (json_dumps (float_repr E) r2)))"
proof -
  have a: "suffix (d @ [''a b.txt'']) = ''.txt''" "suffix (d @ [''a_b.txt'']) = ''.txt''"
    by (simp_all add: suffix_def name_def)
  have b: "stem (d @ [''a b.txt'']) = ''a b''" "stem (d @ [''a_b.txt'']) = ''a_b''"
    by (simp_all add: stem_def name_def)
  have 1: "should_process_file (d @ [''a b.txt''])" "should_process_file (d @ [''a_b.txt''])"
    by (simp_all add: should_process_file_def a name_def IGNORE_FILES_def VALID_EXTENSIONS_def
        lower_def lower_char_def)
  have 2: "get_safe_filename (stem (d @ [''a b.txt''])) = get_safe_filename (stem (d @ [''a_b.txt'']))"
    by (simp add: b get_safe_filename_def replace_def)
  have 3: "out s1 (json_dir self @ dir @ [get_safe_filename (stem (input_dir self @ dir @ [n1])) @ ''.json'']) =
      Some (FileNode (json_dumps (float_repr E) r1)) \<and>
    out s2 (json_dir self @ dir @ [get_safe_filename (stem (input_dir self @ dir @ [n1])) @ ''.json'']) =
      Some (FileNode (json_dumps (float_repr E) r2))"
    if "get_safe_filename (stem (input_dir self @ dir @ [n1])) =
      get_safe_filename (stem (input_dir self @ dir @ [n2]))"
      and "save_outputs E self (input_dir self @ dir @ [n1]) r1 s = (Inr (), s1)"
      and "save_outputs E self (input_dir self @ dir @ [n2]) r2 t = (Inr (), s2)"
    using that save_outputs_json [of E self dir n1 r1 s s1] save_outputs_json [of E self dir n2 r2 t s2]
    by (simp add: stem_below)
  from 1 2 3 show ?thesis by blast
qed

theorem C9_safe_stem_collision_witness:
  "get_all_files clash_env demo_processor =
     [[''srv'', ''in'', ''a b.txt''], [''srv'', ''in'', ''a_b.txt'']] \<and>
   get_safe_filename (stem [''srv'', ''in'', ''a b.txt'']) = ''a_b'' \<and>
   get_safe_filename (stem [''srv'', ''in'', ''a_b.txt'']) = ''a_b'' \<and>
   fst (main clash_env demo_args fresh) = 0 \<and>
   out (snd (main clash_env demo_args fresh)) [''srv'', ''output'', ''json'', ''a_b.json''] =
     Some (FileNode (json_dumps (float_repr clash_env) (JObj [(''text'', JStr ''second'')]))) \<and>
   out (snd (main clash_env demo_args fresh)) [''srv'', ''output'', ''markdown'', ''a_b.md''] =
     Some (FileNode ''second'') \<and>
   get_all_files clash_env_rev demo_processor =
     [[''srv'', ''in'', ''a_b.txt''], [''srv'', ''in'', ''a b.txt'']] \<and>
   out (snd (main clash_env_rev demo_args fresh)) [''srv'', ''output'', ''json'', ''a_b.json''] =
     Some (FileNode (json_dumps (float_repr clash_env_rev) (JObj [(''text'', JStr ''first'')]))) \<and>
   out (snd (main clash_env_rev demo_args fresh)) [''srv'', ''output'', ''markdown'', ''a_b.md''] =
     Some (FileNode ''first'') \<and>
   out (snd (save_outputs clash_env demo_processor (input_dir demo_processor @ [''a_b.txt''])
          (JObj [(''text'', JStr ''second'')])
          (snd (save_outputs clash_env demo_processor (input_dir demo_processor @ [''a b.txt''])
             (JObj [(''text'', JStr ''first'')]) fresh))))
     [''srv'', ''output'', ''json'', ''a_b.json''] =
     Some (FileNode (json_dumps (float_repr clash_env) (JObj [(''text'', JStr ''second'')])))"
proof -
  let ?run1 = "save_outputs clash_env demo_processor (input_dir demo_processor @ [''a b.txt''])
             (JObj [(''text'', JStr ''first'')]) fresh"
  let ?run2 = "save_outputs clash_env demo_processor (input_dir demo_processor @ [''a_b.txt''])
          (JObj [(''text'', JStr ''second'')]) (snd ?run1)"
  have ok1: "fst ?run1 = Inr ()" by code_simp
  have ok2: "fst ?run2 = Inr ()" by code_simp
  from ok1 have r1: "?run1 = (Inr (), snd ?run1)" by (simp add: prod_eq_iff)
  from ok2 have r2: "?run2 = (Inr (), snd ?run2)" by (simp add: prod_eq_iff)
  have safe1: "get_safe_filename (stem (input_dir demo_processor @ [''a b.txt''])) = ''a_b''"
    by code_simp
  have safe2: "get_safe_filename (stem (input_dir demo_processor @ [''a_b.txt''])) = ''a_b''"
    by code_simp
  have j: "json_dir demo_processor = [''srv'', ''output'', ''json'']"
    by (simp add: demo_processor_def)
  from C9_safe_stem_collision [where d = "[]" and self = demo_processor and dir = "[]"
      and ?n1.0 = "''a b.txt''" and ?n2.0 = "''a_b.txt''" and E = clash_env
      and ?r1.0 = "JObj [(''text'', JStr ''first'')]" and s = fresh and ?s1.0 = "snd ?run1"
      and ?r2.0 = "JObj [(''text'', JStr ''second'')]" and t = "snd ?run1"
      and ?s2.0 = "snd ?run2"] r1 r2
  have last: "out (snd ?run2) [''srv'', ''output'', ''json'', ''a_b.json''] =
     Some (FileNode (json_dumps (float_repr clash_env) (JObj [(''text'', JStr ''second'')])))"
    by (simp add: safe1 safe2 j)
  have rest: "get_all_files clash_env demo_processor =
     [[''srv'', ''in'', ''a b.txt''], [''srv'', ''in'', ''a_b.txt'']] \<and>
   get_safe_filename (stem [''srv'', ''in'', ''a b.txt'']) = ''a_b'' \<and>
   get_safe_filename (stem [''srv'', ''in'', ''a_b.txt'']) = ''a_b'' \<and>
   fst (main clash_env demo_args fresh) = 0 \<and>
   out (snd (main clash_env demo_args fresh)) [''srv'', ''output'', ''json'', ''a_b.json''] =
     Some (FileNode (json_dumps (float_repr clash_env) (JObj [(''text'', JStr ''second'')]))) \<and>
   out (snd (main clash_env demo_args fresh)) [''srv'', ''output'', ''markdown'', ''a_b.md''] =
     Some (FileNode ''second'') \<and>
   get_all_files clash_env_rev demo_processor =
     [[''srv'', ''in'', ''a_b.txt''], [''srv'', ''in'', ''a b.txt'']] \<and>
   out (snd (main clash_env_rev demo_args fresh)) [''srv'', ''output'', ''json'', ''a_b.json''] =
     Some (FileNode (json_dumps (float_repr clash_env_rev) (JObj [(''text'', JStr ''first'')]))) \<and>
   out (snd (main clash_env_rev demo_args fresh)) [''srv'', ''output'', ''markdown'', ''a_b.md''] =
     Some (FileNode ''first'')"
    by code_simp
  from rest last show ?thesis by simp
qed

end
